theory Spec2Isabelle
  imports Main "HOL-Library.Word"
begin

unbundle bit_operations_syntax

section \<open>Data model\<close>

text \<open>
  \<^verbatim>\<open>uint8_t\<close> and \<^verbatim>\<open>int8_t\<close> are both 8-bit words; \<open>unat\<close>/\<open>uint\<close> read a
  word as \<^verbatim>\<open>uint8_t\<close>, \<open>sint\<close> as \<^verbatim>\<open>int8_t\<close>. C computes every operator on them in
  \<^verbatim>\<open>int\<close> and narrows on assignment or when the value is passed as a \<^verbatim>\<open>uint8_t\<close>
  parameter; narrowing is reduction modulo 256, which is what the word operations do.
\<close>

type_synonym u8 = "8 word"
type_synonym s8 = "8 word"

text \<open>\<^verbatim>\<open>static uint8_t screenmemory [LCDWIDTH * LCDHEIGHT / 8]\<close>: the page buffer.\<close>

type_synonym framebuffer = "u8 list"

text \<open>
  Modelled from the spec: the framebuffer width W and height H (a multiple of 8), the
  macros \<^verbatim>\<open>LCDWIDTH\<close> and \<^verbatim>\<open>LCDHEIGHT\<close> of the header \<^verbatim>\<open>SFE_MicroOLED.h\<close>, which is
  not among the sources. The values are those of the 64x48 module that \<^verbatim>\<open>init\<close>
  programs (multiplex ratio \<^verbatim>\<open>0x2F\<close>, 47).
\<close>

definition LCDWIDTH :: nat where "LCDWIDTH = 64"
definition LCDHEIGHT :: nat where "LCDHEIGHT = 48"

text \<open>
  Modelled from the spec: the two colours CLEAR and SET, the macros \<^verbatim>\<open>BLACK\<close> and
  \<^verbatim>\<open>WHITE\<close> of the missing header. \<^verbatim>\<open>drawChar\<close> passes \<^verbatim>\<open>!color\<close> as the other colour,
  so they are 0 and 1, and \<^verbatim>\<open>WHITE\<close> is the one that sets a bit.
\<close>

definition BLACK :: u8 where "BLACK = 0"
definition WHITE :: u8 where "WHITE = 1"

text \<open>
  Modelled from the spec: the two draw modes, overwrite and exclusive-or, the macros
  \<^verbatim>\<open>NORM\<close> and \<^verbatim>\<open>XOR\<close> of the missing header; \<^verbatim>\<open>XOR\<close> is written \<open>XOR_mode\<close>, the bare
  name being HOL syntax. The code only ever tests \<^verbatim>\<open>mode==XOR\<close>.
\<close>

definition NORM :: u8 where "NORM = 0"
definition XOR_mode :: u8 where "XOR_mode = 1"

text \<open>
  Modelled from the spec: the two targets of \<^verbatim>\<open>clear\<close>, the page buffer and the
  controller's memory, the macros \<^verbatim>\<open>PAGE\<close> and \<^verbatim>\<open>ALL\<close> of the missing header; \<^verbatim>\<open>ALL\<close>
  is written \<open>ALL_mode\<close>. The code only ever tests \<^verbatim>\<open>mode==ALL\<close>.
\<close>

definition PAGE :: u8 where "PAGE = 0"
definition ALL_mode :: u8 where "ALL_mode = 1"

text \<open>
  Modelled from the spec: the length of a font's header, six bytes (width, height,
  first character, character count, and the two bytes of the map width), the macro
  \<^verbatim>\<open>FONTHEADERSIZE\<close> of the missing header.
\<close>

definition FONTHEADERSIZE :: nat where "FONTHEADERSIZE = 6"

text \<open>\<^verbatim>\<open>#define TOTALFONTS 4\<close>\<close>

definition TOTALFONTS :: nat where "TOTALFONTS = 4"

text \<open>
  Modelled from the spec: bit \<open>n\<close> of a byte, the macro \<^verbatim>\<open>_BV(n)\<close>, \<^verbatim>\<open>(1 << (n))\<close>, which
  the sources use and do not define.
\<close>

definition BV :: "nat \<Rightarrow> u8" where
  "BV n = push_bit n 1"

text \<open>\<^verbatim>\<open>memset(p, c, n)\<close> on an array held as a list.\<close>

definition memset :: "u8 list \<Rightarrow> u8 \<Rightarrow> nat \<Rightarrow> u8 list" where
  "memset p c n = replicate (min n (length p)) c @ drop n p"

section \<open>The page buffer\<close>

text \<open>
  \<^verbatim>\<open>MicroOLED::clear(uint8_t mode)\<close> and \<^verbatim>\<open>MicroOLED::clear(uint8_t mode, uint8_t c)\<close>.
  With \<^verbatim>\<open>mode == ALL\<close> both only stream bytes to the controller; otherwise they fill
  the page buffer (the second one then calls \<^verbatim>\<open>display()\<close>, which reads the buffer and
  writes to the bus only). The bus is outside the state modelled here.
\<close>

definition clear1 :: "framebuffer \<Rightarrow> u8 \<Rightarrow> framebuffer" where
  "clear1 screenmemory mode =
     (if mode = ALL_mode then screenmemory
      else memset screenmemory 0 (LCDWIDTH * LCDHEIGHT div 8))"

definition clear2 :: "framebuffer \<Rightarrow> u8 \<Rightarrow> u8 \<Rightarrow> framebuffer" where
  "clear2 screenmemory mode c =
     (if mode = ALL_mode then screenmemory
      else memset screenmemory c (LCDWIDTH * LCDHEIGHT div 8))"

text \<open>
  \<^verbatim>\<open>MicroOLED::pixel(uint8_t x, uint8_t y, uint8_t color, uint8_t mode)\<close>. The index
  \<^verbatim>\<open>x + (y/8)*LCDWIDTH\<close> is computed in \<^verbatim>\<open>int\<close>; past the bounds test it is below
  \<open>LCDWIDTH * LCDHEIGHT div 8\<close>, the size of the array (\<open>pixel_index_bound\<close> below).
\<close>

definition pixel :: "framebuffer \<Rightarrow> u8 \<Rightarrow> u8 \<Rightarrow> u8 \<Rightarrow> u8 \<Rightarrow> framebuffer" where
  "pixel screenmemory x y color mode =
     (if unat x \<ge> LCDWIDTH \<or> unat y \<ge> LCDHEIGHT then screenmemory
      else
        let i = unat x + (unat y div 8) * LCDWIDTH in
        if mode = XOR_mode then
          (if color = WHITE
           then screenmemory[i := screenmemory ! i XOR BV (unat y mod 8)]
           else screenmemory)
        else
          (if color = WHITE
           then screenmemory[i := screenmemory ! i OR BV (unat y mod 8)]
           else screenmemory[i := screenmemory ! i AND NOT (BV (unat y mod 8))]))"

text \<open>
  The state of the pixel at \<open>(x, y)\<close>, read through the addressing rule that
  \<open>pixel\<close> writes with: byte \<open>x + (y div 8) * LCDWIDTH\<close>, bit \<open>y mod 8\<close>.
\<close>

definition pixel_bit :: "framebuffer \<Rightarrow> nat \<Rightarrow> nat \<Rightarrow> bool" where
  "pixel_bit screenmemory x y = bit (screenmemory ! (x + (y div 8) * LCDWIDTH)) (y mod 8)"

text \<open>A sequence of \<open>pixel\<close> calls, in order.\<close>

type_synonym plot = "u8 \<times> u8 \<times> u8 \<times> u8"

definition plot_all :: "framebuffer \<Rightarrow> plot list \<Rightarrow> framebuffer" where
  "plot_all screenmemory ps = foldl (\<lambda>fb (x, y, color, mode). pixel fb x y color mode) screenmemory ps"

definition on_screen :: "plot \<Rightarrow> bool" where
  "on_screen p = (case p of (x, y, color, mode) \<Rightarrow> unat x < LCDWIDTH \<and> unat y < LCDHEIGHT)"

section \<open>Lines and rectangles\<close>

text \<open>
  The \<^verbatim>\<open>for (; x0<x1; x0++)\<close> loop of \<^verbatim>\<open>MicroOLED::line\<close>. \<open>err\<close> and \<open>ystep\<close> are
  \<^verbatim>\<open>int8_t\<close>: \<^verbatim>\<open>err -= dy\<close> and \<^verbatim>\<open>err += dx\<close> narrow to 8 bits, \<^verbatim>\<open>err < 0\<close> reads
  the sign.
\<close>

lemma u8_succ_less: "(x0 :: u8) < x1 \<Longrightarrow> unat x1 - unat (x0 + 1) < unat x1 - unat x0"
  by unat_arith

function line_loop ::
  "framebuffer \<Rightarrow> bool \<Rightarrow> u8 \<Rightarrow> u8 \<Rightarrow> u8 \<Rightarrow> u8 \<Rightarrow> u8 \<Rightarrow> s8 \<Rightarrow> s8 \<Rightarrow> u8 \<Rightarrow> u8 \<Rightarrow> framebuffer"
where
  "line_loop screenmemory steep x0 y0 x1 dx dy err ystep color mode =
     (if x0 < x1 then
        let fb = (if steep then pixel screenmemory y0 x0 color mode
                  else pixel screenmemory x0 y0 color mode);
            err' = err - dy
        in if sint err' < 0
           then line_loop fb steep (x0 + 1) (y0 + ystep) x1 dx dy (err' + dx) ystep color mode
           else line_loop fb steep (x0 + 1) y0 x1 dx dy err' ystep color mode
      else screenmemory)"
  by pat_completeness auto
termination
  by (relation "measure (\<lambda>(fb, steep, x0, y0, x1, rest). unat x1 - unat x0)")
    (auto simp: u8_succ_less)

text \<open>
  \<^verbatim>\<open>MicroOLED::line(x0, y0, x1, y1, color, mode)\<close>. \<^verbatim>\<open>abs(y1 - y0)\<close> and
  \<^verbatim>\<open>abs(x1 - x0)\<close> are computed in \<^verbatim>\<open>int\<close>; \<^verbatim>\<open>swap\<close> exchanges its arguments.
\<close>

definition line :: "framebuffer \<Rightarrow> u8 \<Rightarrow> u8 \<Rightarrow> u8 \<Rightarrow> u8 \<Rightarrow> u8 \<Rightarrow> u8 \<Rightarrow> framebuffer" where
  "line screenmemory x0 y0 x1 y1 color mode =
     (let steep = \<bar>uint y1 - uint y0\<bar> > \<bar>uint x1 - uint x0\<bar>;
          (a0, b0, a1, b1) = (if steep then (y0, x0, y1, x1) else (x0, y0, x1, y1));
          (c0, d0, c1, d1) = (if a0 > a1 then (a1, b1, a0, b0) else (a0, b0, a1, b1));
          dx = c1 - c0;
          dy = word_of_int \<bar>uint d1 - uint d0\<bar>;
          err = word_of_int (uint dx div 2);
          ystep = (if d0 < d1 then 1 else - 1)
      in line_loop screenmemory steep c0 d0 c1 dx dy err ystep color mode)"

text \<open>The \<open>pixel\<close> calls of the loop, and of \<open>line\<close>, in the order they are made.\<close>

function line_loop_plots ::
  "bool \<Rightarrow> u8 \<Rightarrow> u8 \<Rightarrow> u8 \<Rightarrow> u8 \<Rightarrow> u8 \<Rightarrow> s8 \<Rightarrow> s8 \<Rightarrow> u8 \<Rightarrow> u8 \<Rightarrow> plot list"
where
  "line_loop_plots steep x0 y0 x1 dx dy err ystep color mode =
     (if x0 < x1 then
        let p = (if steep then (y0, x0, color, mode) else (x0, y0, color, mode));
            err' = err - dy
        in if sint err' < 0
           then p # line_loop_plots steep (x0 + 1) (y0 + ystep) x1 dx dy (err' + dx) ystep color mode
           else p # line_loop_plots steep (x0 + 1) y0 x1 dx dy err' ystep color mode
      else [])"
  by pat_completeness auto
termination
  by (relation "measure (\<lambda>(steep, x0, y0, x1, rest). unat x1 - unat x0)")
    (auto simp: u8_succ_less)

definition line_plots :: "u8 \<Rightarrow> u8 \<Rightarrow> u8 \<Rightarrow> u8 \<Rightarrow> u8 \<Rightarrow> u8 \<Rightarrow> plot list" where
  "line_plots x0 y0 x1 y1 color mode =
     (let steep = \<bar>uint y1 - uint y0\<bar> > \<bar>uint x1 - uint x0\<bar>;
          (a0, b0, a1, b1) = (if steep then (y0, x0, y1, x1) else (x0, y0, x1, y1));
          (c0, d0, c1, d1) = (if a0 > a1 then (a1, b1, a0, b0) else (a0, b0, a1, b1));
          dx = c1 - c0;
          dy = word_of_int \<bar>uint d1 - uint d0\<bar>;
          err = word_of_int (uint dx div 2);
          ystep = (if d0 < d1 then 1 else - 1)
      in line_loop_plots steep c0 d0 c1 dx dy err ystep color mode)"

text \<open>
  \<^verbatim>\<open>lineH\<close> and \<^verbatim>\<open>lineV\<close> with colour and mode: \<^verbatim>\<open>x+width\<close> and \<^verbatim>\<open>y+height\<close> are
  narrowed to \<^verbatim>\<open>uint8_t\<close> when passed on.
\<close>

definition lineH :: "framebuffer \<Rightarrow> u8 \<Rightarrow> u8 \<Rightarrow> u8 \<Rightarrow> u8 \<Rightarrow> u8 \<Rightarrow> framebuffer" where
  "lineH screenmemory x y width color mode = line screenmemory x y (x + width) y color mode"

definition lineV :: "framebuffer \<Rightarrow> u8 \<Rightarrow> u8 \<Rightarrow> u8 \<Rightarrow> u8 \<Rightarrow> u8 \<Rightarrow> framebuffer" where
  "lineV screenmemory x y height color mode = line screenmemory x y x (y + height) color mode"

text \<open>\<^verbatim>\<open>MicroOLED::rect(x, y, width, height, color, mode)\<close>; \<^verbatim>\<open>tempHeight\<close> is \<^verbatim>\<open>uint8_t\<close>.\<close>

definition rect :: "framebuffer \<Rightarrow> u8 \<Rightarrow> u8 \<Rightarrow> u8 \<Rightarrow> u8 \<Rightarrow> u8 \<Rightarrow> u8 \<Rightarrow> framebuffer" where
  "rect screenmemory x y width height color mode =
     (let fb1 = lineH screenmemory x y width color mode;
          fb2 = lineH fb1 x (y + height - 1) width color mode;
          tempHeight = height - 2
      in if tempHeight < 1 then fb2
         else
           let fb3 = lineV fb2 x (y + 1) tempHeight color mode
           in lineV fb3 (x + width - 1) (y + 1) tempHeight color mode)"

text \<open>
  \<^verbatim>\<open>MicroOLED::rectFill\<close>: \<^verbatim>\<open>for (int i=x; i<x+width; i++) lineV(i, y, height, color, mode)\<close>,
  with \<open>i\<close> an \<^verbatim>\<open>int\<close> that is narrowed when passed to \<^verbatim>\<open>lineV\<close>.
\<close>

function rectFill_loop ::
  "framebuffer \<Rightarrow> int \<Rightarrow> u8 \<Rightarrow> u8 \<Rightarrow> u8 \<Rightarrow> u8 \<Rightarrow> u8 \<Rightarrow> u8 \<Rightarrow> framebuffer"
where
  "rectFill_loop screenmemory i x y width height color mode =
     (if i < uint x + uint width
      then rectFill_loop (lineV screenmemory (word_of_int i) y height color mode)
             (i + 1) x y width height color mode
      else screenmemory)"
  by pat_completeness auto
termination
  by (relation "measure (\<lambda>(fb, i, x, y, width, rest). nat (uint x + uint width - i))") auto

definition rectFill :: "framebuffer \<Rightarrow> u8 \<Rightarrow> u8 \<Rightarrow> u8 \<Rightarrow> u8 \<Rightarrow> u8 \<Rightarrow> u8 \<Rightarrow> framebuffer" where
  "rectFill screenmemory x y width height color mode =
     rectFill_loop screenmemory (uint x) x y width height color mode"

text \<open>
  The \<open>pixel\<close> calls of \<^verbatim>\<open>lineH\<close>, \<^verbatim>\<open>lineV\<close>, \<^verbatim>\<open>rect\<close> and \<^verbatim>\<open>rectFill\<close>, in the
  order they are made.
\<close>

definition lineH_plots :: "u8 \<Rightarrow> u8 \<Rightarrow> u8 \<Rightarrow> u8 \<Rightarrow> u8 \<Rightarrow> plot list" where
  "lineH_plots x y width color mode = line_plots x y (x + width) y color mode"

definition lineV_plots :: "u8 \<Rightarrow> u8 \<Rightarrow> u8 \<Rightarrow> u8 \<Rightarrow> u8 \<Rightarrow> plot list" where
  "lineV_plots x y height color mode = line_plots x y x (y + height) color mode"

definition rect_plots :: "u8 \<Rightarrow> u8 \<Rightarrow> u8 \<Rightarrow> u8 \<Rightarrow> u8 \<Rightarrow> u8 \<Rightarrow> plot list" where
  "rect_plots x y width height color mode =
     lineH_plots x y width color mode @ lineH_plots x (y + height - 1) width color mode @
     (if height - 2 < 1 then []
      else lineV_plots x (y + 1) (height - 2) color mode @
           lineV_plots (x + width - 1) (y + 1) (height - 2) color mode)"

definition rectFill_plots :: "u8 \<Rightarrow> u8 \<Rightarrow> u8 \<Rightarrow> u8 \<Rightarrow> u8 \<Rightarrow> u8 \<Rightarrow> plot list" where
  "rectFill_plots x y width height color mode =
     concat (map (\<lambda>k. lineV_plots (x + word_of_nat k) y height color mode) [0..<unat width])"

section \<open>Filled circles\<close>

text \<open>
  The spans of \<^verbatim>\<open>MicroOLED::circleFill\<close>: \<^verbatim>\<open>for (uint8_t i=lo; i<=hi; i++)\<close>, where
  \<open>hi\<close> is an \<^verbatim>\<open>int\<close> (\<^verbatim>\<open>y0+radius\<close>, \<^verbatim>\<open>y0+y\<close>, \<^verbatim>\<open>y0+x\<close>) and \<open>i\<close> wraps at
  256, so the loop need not end: \<open>None\<close> is a call that never returns. The first
  span plots one column, the spans inside the \<^verbatim>\<open>while\<close> loop plot two.
\<close>

partial_function (option) circleFill_span ::
  "framebuffer \<Rightarrow> u8 \<Rightarrow> u8 \<Rightarrow> int \<Rightarrow> u8 \<Rightarrow> u8 \<Rightarrow> framebuffer option"
where
  "circleFill_span screenmemory x i hi color mode =
     (if uint i \<le> hi
      then circleFill_span (pixel screenmemory x i color mode) x (i + 1) hi color mode
      else Some screenmemory)"

partial_function (option) circleFill_span2 ::
  "framebuffer \<Rightarrow> u8 \<Rightarrow> u8 \<Rightarrow> u8 \<Rightarrow> int \<Rightarrow> u8 \<Rightarrow> u8 \<Rightarrow> framebuffer option"
where
  "circleFill_span2 screenmemory xa xb i hi color mode =
     (if uint i \<le> hi
      then circleFill_span2 (pixel (pixel screenmemory xa i color mode) xb i color mode)
             xa xb (i + 1) hi color mode
      else Some screenmemory)"

text \<open>
  The \<^verbatim>\<open>while (x<y)\<close> loop; \<open>f\<close>, \<open>ddF_x\<close>, \<open>ddF_y\<close>, \<open>x\<close> and \<open>y\<close> are \<^verbatim>\<open>int8_t\<close>.
\<close>

partial_function (option) circleFill_loop ::
  "framebuffer \<Rightarrow> u8 \<Rightarrow> u8 \<Rightarrow> s8 \<Rightarrow> s8 \<Rightarrow> s8 \<Rightarrow> s8 \<Rightarrow> s8 \<Rightarrow> u8 \<Rightarrow> u8 \<Rightarrow> framebuffer option"
where
  "circleFill_loop screenmemory x0 y0 f ddF_x ddF_y x y color mode =
     (if sint x < sint y then
        let y' = (if sint f \<ge> 0 then y - 1 else y);
            ddF_y' = (if sint f \<ge> 0 then ddF_y + 2 else ddF_y);
            f' = (if sint f \<ge> 0 then f + ddF_y' else f);
            x' = x + 1;
            ddF_x' = ddF_x + 2;
            f'' = f' + ddF_x'
        in Option.bind
             (circleFill_span2 screenmemory (x0 + x') (x0 - x') (y0 - y') (uint y0 + sint y') color mode)
             (\<lambda>fb1. Option.bind
                (circleFill_span2 fb1 (x0 + y') (x0 - y') (y0 - x') (uint y0 + sint x') color mode)
                (\<lambda>fb2. circleFill_loop fb2 x0 y0 f'' ddF_x' ddF_y' x' y' color mode))
      else Some screenmemory)"

declare circleFill_span.simps [code]
declare circleFill_span2.simps [code]
declare circleFill_loop.simps [code]

text \<open>
  \<^verbatim>\<open>MicroOLED::circleFill(x0, y0, radius, color, mode)\<close>: the locals are initialised,
  then \<^verbatim>\<open>if (mode==XOR) return;\<close>.
\<close>

definition circleFill ::
  "framebuffer \<Rightarrow> u8 \<Rightarrow> u8 \<Rightarrow> u8 \<Rightarrow> u8 \<Rightarrow> u8 \<Rightarrow> framebuffer option"
where
  "circleFill screenmemory x0 y0 radius color mode =
     (if mode = XOR_mode then Some screenmemory
      else Option.bind
             (circleFill_span screenmemory x0 (y0 - radius) (uint y0 + uint radius) color mode)
             (\<lambda>fb. circleFill_loop fb x0 y0 (1 - radius) 1 (- 2 * radius) 0 radius color mode))"

section \<open>Fonts and characters\<close>

text \<open>
  A font is the byte array that an entry of \<^verbatim>\<open>fontsPointer\<close> points to: six header
  bytes, then the glyph bitmaps. The font files are not among the sources, so the table
  \<open>fontsPointer\<close> is a parameter of the operations that read it.
\<close>

type_synonym font = "u8 list"

text \<open>The member variables of \<^verbatim>\<open>class MicroOLED\<close> that the drawing code uses.\<close>

record MicroOLED =
  foreColor :: u8
  drawMode :: u8
  fontWidth :: u8
  fontHeight :: u8
  fontType :: u8
  fontStartChar :: u8
  fontTotalChar :: u8
  fontMapWidth :: "16 word"
  cursorX :: u8
  cursorY :: u8

text \<open>
  \<^verbatim>\<open>MicroOLED::setFontType(uint8_t type)\<close>; the result is the C++ \<^verbatim>\<open>false\<close> or
  \<^verbatim>\<open>true\<close>, with the object after the call.
\<close>

definition setFontType :: "font list \<Rightarrow> MicroOLED \<Rightarrow> u8 \<Rightarrow> bool \<times> MicroOLED" where
  "setFontType fontsPointer this type =
     (if unat type \<ge> TOTALFONTS then (False, this)
      else
        let f = fontsPointer ! unat type in
        (True, this\<lparr>fontType := type,
                     fontWidth := f ! 0,
                     fontHeight := f ! 1,
                     fontStartChar := f ! 2,
                     fontTotalChar := f ! 3,
                     fontMapWidth := word_of_nat (unat (f ! 4) * 100 + unat (f ! 5))\<rparr>))"

text \<open>The C operator \<^verbatim>\<open>!\<close> on a \<^verbatim>\<open>uint8_t\<close>.\<close>

definition lnot :: "u8 \<Rightarrow> u8" where
  "lnot c = (if c = 0 then 1 else 0)"

text \<open>
  The inner loop of \<^verbatim>\<open>drawChar\<close>, \<^verbatim>\<open>for (j=0;j<8;j++)\<close>, plotting at column \<open>px\<close>
  (\<^verbatim>\<open>x+i\<close>) and rows \<open>py + j\<close>, where \<open>py\<close> is \<^verbatim>\<open>y\<close>, or \<^verbatim>\<open>y+(row*8)\<close> for a font
  higher than 8 pixels.
\<close>

function drawChar_bits ::
  "framebuffer \<Rightarrow> u8 \<Rightarrow> u8 \<Rightarrow> u8 \<Rightarrow> u8 \<Rightarrow> u8 \<Rightarrow> u8 \<Rightarrow> framebuffer"
where
  "drawChar_bits screenmemory px py j temp color mode =
     (if j < 8 then
        drawChar_bits
          (if temp AND 1 \<noteq> 0 then pixel screenmemory px (py + j) color mode
           else pixel screenmemory px (py + j) (lnot color) mode)
          px py (j + 1) (drop_bit 1 temp) color mode
      else screenmemory)"
  by pat_completeness auto
termination
  by (relation "measure (\<lambda>(fb, px, py, j, rest). 8 - unat j)")
    (use u8_succ_less [of _ 8] in auto)

text \<open>
  The column loop of a font of one row, \<^verbatim>\<open>for (i=0;i<fontWidth+1;i++)\<close>: \<open>i\<close> is a
  \<^verbatim>\<open>uint8_t\<close> and the bound an \<^verbatim>\<open>int\<close>, so the loop does not end when \<open>fontWidth\<close>
  is 255.
\<close>

partial_function (option) drawChar_columns ::
  "font list \<Rightarrow> MicroOLED \<Rightarrow> framebuffer \<Rightarrow> u8 \<Rightarrow> u8 \<Rightarrow> u8 \<Rightarrow> u8 \<Rightarrow> u8 \<Rightarrow> u8 \<Rightarrow> framebuffer option"
where
  "drawChar_columns fontsPointer this screenmemory tempC x y i color mode =
     (if uint i < uint (fontWidth this) + 1 then
        let temp = (if i = fontWidth this then 0
                    else fontsPointer ! unat (fontType this) !
                           (FONTHEADERSIZE + unat tempC * unat (fontWidth this) + unat i))
        in drawChar_columns fontsPointer this
             (drawChar_bits screenmemory (x + i) y 0 temp color mode)
             tempC x y (i + 1) color mode
      else Some screenmemory)"

declare drawChar_columns.simps [code]

text \<open>The loops of a font of several rows: the columns of one row, then the rows.\<close>

function drawChar_row ::
  "font list \<Rightarrow> MicroOLED \<Rightarrow> framebuffer \<Rightarrow> 16 word \<Rightarrow> u8 \<Rightarrow> u8 \<Rightarrow> u8 \<Rightarrow> u8 \<Rightarrow> u8 \<Rightarrow> u8 \<Rightarrow> framebuffer"
where
  "drawChar_row fontsPointer this screenmemory charBitmapStartPosition row x y i color mode =
     (if i < fontWidth this then
        let temp = fontsPointer ! unat (fontType this) !
                     (FONTHEADERSIZE +
                      (unat charBitmapStartPosition + unat i + unat row * unat (fontMapWidth this)))
        in drawChar_row fontsPointer this
             (drawChar_bits screenmemory (x + i) (y + row * 8) 0 temp color mode)
             charBitmapStartPosition row x y (i + 1) color mode
      else screenmemory)"
  by pat_completeness auto
termination
  by (relation "measure (\<lambda>(fp, this, fb, pos, row, x, y, i, rest). unat (fontWidth this) - unat i)")
    (auto simp: u8_succ_less)

function drawChar_rows ::
  "font list \<Rightarrow> MicroOLED \<Rightarrow> framebuffer \<Rightarrow> 16 word \<Rightarrow> u8 \<Rightarrow> u8 \<Rightarrow> u8 \<Rightarrow> u8 \<Rightarrow> u8 \<Rightarrow> u8 \<Rightarrow> framebuffer"
where
  "drawChar_rows fontsPointer this screenmemory charBitmapStartPosition rowsToDraw row x y color mode =
     (if row < rowsToDraw then
        drawChar_rows fontsPointer this
          (drawChar_row fontsPointer this screenmemory charBitmapStartPosition row x y 0 color mode)
          charBitmapStartPosition rowsToDraw (row + 1) x y color mode
      else screenmemory)"
  by pat_completeness auto
termination
  by (relation "measure (\<lambda>(fp, this, fb, pos, rowsToDraw, row, rest). unat rowsToDraw - unat row)")
    (auto simp: u8_succ_less)

text \<open>
  \<^verbatim>\<open>MicroOLED::drawChar(x, y, c, color, mode)\<close>. \<open>None\<close> is a call that does not
  return: the column loop never ends, or \<^verbatim>\<open>fontMapWidth/fontWidth\<close> or
  \<^verbatim>\<open>tempC % charPerBitmapRow\<close> divides by zero. The \<^verbatim>\<open>uint16_t\<close> locals are 16-bit
  words; their right-hand sides are computed in \<^verbatim>\<open>int\<close>.
\<close>

definition drawChar ::
  "font list \<Rightarrow> MicroOLED \<Rightarrow> framebuffer \<Rightarrow> u8 \<Rightarrow> u8 \<Rightarrow> u8 \<Rightarrow> u8 \<Rightarrow> u8 \<Rightarrow> framebuffer option"
where
  "drawChar fontsPointer this screenmemory x y c color mode =
     (if uint c < uint (fontStartChar this)
         \<or> uint c > uint (fontStartChar this) + uint (fontTotalChar this) - 1
      then Some screenmemory
      else
        let tempC = c - fontStartChar this;
            rowsToDraw = (if fontHeight this div 8 \<le> 1 then 1 else fontHeight this div 8)
        in if rowsToDraw = 1
           then drawChar_columns fontsPointer this screenmemory tempC x y 0 color mode
           else if fontWidth this = 0 then None
           else
             let charPerBitmapRow = fontMapWidth this div ucast (fontWidth this)
             in if charPerBitmapRow = 0 then None
                else
                  let charColPositionOnBitmap = ucast tempC mod charPerBitmapRow;
                      charRowPositionOnBitmap = ucast tempC div charPerBitmapRow;
                      charBitmapStartPosition =
                        word_of_nat
                          (unat charRowPositionOnBitmap * unat (fontMapWidth this)
                             * (unat (fontHeight this) div 8)
                           + unat charColPositionOnBitmap * unat (fontWidth this))
                  in Some (drawChar_rows fontsPointer this screenmemory
                             charBitmapStartPosition rowsToDraw 0 x y color mode))"

section \<open>Reference descriptions\<close>

text \<open>
  The integer Bresenham stepping as the specification words it: the accumulator is
  decremented by \<open>dy\<close> at each step and, whenever it goes negative, incremented by
  \<open>dx\<close> together with a step in \<open>y\<close>. \<open>bresenham n\<close> lists the \<open>n\<close> points visited
  from \<open>(x, y)\<close>, over unbounded integers.
\<close>

fun bresenham :: "nat \<Rightarrow> int \<Rightarrow> int \<Rightarrow> int \<Rightarrow> int \<Rightarrow> int \<Rightarrow> int \<Rightarrow> (int \<times> int) list" where
  "bresenham 0 x y dx dy err ystep = []"
| "bresenham (Suc n) x y dx dy err ystep =
     (x, y) # (if err - dy < 0
               then bresenham n (x + 1) (y + ystep) dx dy (err - dy + dx) ystep
               else bresenham n (x + 1) y dx dy (err - dy) ystep)"

text \<open>
  The line of the specification: transposed when steep, ordered by the major
  coordinate, accumulator initialised to \<open>dx div 2\<close>, stepping over the major
  coordinates \<open>x0 .. x1 - 1\<close>, each point transposed back.
\<close>

definition bresenham_line :: "int \<Rightarrow> int \<Rightarrow> int \<Rightarrow> int \<Rightarrow> (int \<times> int) list" where
  "bresenham_line x0 y0 x1 y1 =
     (let steep = \<bar>y1 - y0\<bar> > \<bar>x1 - x0\<bar>;
          (a0, b0, a1, b1) = (if steep then (y0, x0, y1, x1) else (x0, y0, x1, y1));
          (c0, d0, c1, d1) = (if a0 > a1 then (a1, b1, a0, b0) else (a0, b0, a1, b1));
          dx = c1 - c0;
          dy = \<bar>d1 - d0\<bar>;
          ystep = (if d0 < d1 then 1 else - 1)
      in map (\<lambda>(a, b). if steep then (b, a) else (a, b))
           (bresenham (nat dx) c0 d0 dx dy (dx div 2) ystep))"

text \<open>
  A point of the reference line as a \<open>pixel\<close> call: its coordinates narrowed to
  \<^verbatim>\<open>uint8_t\<close>; \<open>to_plot\<close> takes the point before it is transposed back.
\<close>

definition to_u8 :: "u8 \<Rightarrow> u8 \<Rightarrow> int \<times> int \<Rightarrow> plot" where
  "to_u8 color mode p = (word_of_int (fst p), word_of_int (snd p), color, mode)"

definition to_plot :: "bool \<Rightarrow> u8 \<Rightarrow> u8 \<Rightarrow> int \<times> int \<Rightarrow> plot" where
  "to_plot steep color mode p =
     (if steep then (word_of_int (snd p), word_of_int (fst p), color, mode)
      else (word_of_int (fst p), word_of_int (snd p), color, mode))"



section \<open>Sample data\<close>

text \<open>
  The headers of two fonts (a 5x8 font of 255 characters from code 0 with a map 1275
  wide, an 8x16 font of 96 characters from code 32 with a map 256 wide) and an object
  with the first of them active, for concrete instances of the theorems below.
\<close>

definition font5x7_header :: font where
  "font5x7_header = [5, 8, 0, 255, 12, 75]"

definition font8x16_header :: font where
  "font8x16_header = [8, 16, 32, 96, 2, 56]"

definition oled0 :: MicroOLED where
  "oled0 = \<lparr>foreColor = 1, drawMode = 0, fontWidth = 5, fontHeight = 8, fontType = 0,
             fontStartChar = 0, fontTotalChar = 255, fontMapWidth = 1275, cursorX = 0, cursorY = 0\<rparr>"





section \<open>Properties\<close>

subsection \<open>Pixels and sequences of pixel calls\<close>

lemma pixel_index_bound:
  assumes "x < LCDWIDTH" "y < LCDHEIGHT"
  shows "x + (y div 8) * LCDWIDTH < LCDWIDTH * LCDHEIGHT div 8"
proof -
  from assms(2) have "y div 8 \<le> 5" unfolding LCDHEIGHT_def by simp
  then have "(y div 8) * 64 \<le> 5 * 64" by (rule mult_le_mono1)
  with assms(1) show ?thesis unfolding LCDWIDTH_def LCDHEIGHT_def by simp
qed

lemma length_pixel [simp]: "length (pixel fb x y color mode) = length fb"
  by (simp add: pixel_def Let_def)

lemma length_memset [simp]: "length (memset p c n) = length p"
  by (simp add: memset_def)

lemma pixel_off_screen:
  "unat x \<ge> LCDWIDTH \<or> unat y \<ge> LCDHEIGHT \<Longrightarrow> pixel fb x y color mode = fb"
  by (auto simp: pixel_def)

lemma plot_all_Nil [simp]: "plot_all fb [] = fb"
  by (simp add: plot_all_def)

lemma plot_all_Cons [simp]:
  "plot_all fb ((x, y, color, mode) # ps) = plot_all (pixel fb x y color mode) ps"
  by (simp add: plot_all_def)

lemma plot_all_append [simp]: "plot_all fb (ps @ qs) = plot_all (plot_all fb ps) qs"
  by (simp add: plot_all_def)

lemma plot_all_on_screen: "plot_all fb (filter on_screen ps) = plot_all fb ps"
proof (induction ps arbitrary: fb)
  case Nil
  show ?case by simp
next
  case (Cons p ps)
  obtain x y color mode where p: "p = (x, y, color, mode)"
    by (cases p) auto
  show ?case
  proof (cases "on_screen p")
    case True
    with Cons p show ?thesis by simp
  next
    case False
    with p have "pixel fb x y color mode = fb"
      by (intro pixel_off_screen) (auto simp: on_screen_def not_less)
    with False Cons p show ?thesis by simp
  qed
qed

lemma bit_BV: "bit (BV n) k \<longleftrightarrow> k = n \<and> n < 8"
  by (auto simp: BV_def bit_simps)

lemma index_inj:
  assumes "x < LCDWIDTH" "x' < LCDWIDTH"
  shows "x + (y div 8) * LCDWIDTH = x' + (y' div 8) * LCDWIDTH \<and> y mod 8 = y' mod 8
         \<longleftrightarrow> x = x' \<and> y = y'"
proof -
  have "x = x' \<and> y div 8 = y' div 8"
    if "x + (y div 8) * 64 = x' + (y' div 8) * 64" "x < 64" "x' < 64"
  proof -
    have "(x + (y div 8) * 64) mod 64 = x" "(x' + (y' div 8) * 64) mod 64 = x'"
      using that(2,3) by simp_all
    with that(1) have xx: "x = x'" by metis
    with that show ?thesis by simp
  qed
  moreover have "y = y'" if "y div 8 = y' div 8" "y mod 8 = y' mod 8"
    using that by (metis div_mult_mod_eq)
  ultimately show ?thesis using assms unfolding LCDWIDTH_def by auto
qed

lemma pixel_bit_pixel:
  assumes len: "length fb = LCDWIDTH * LCDHEIGHT div 8"
    and x: "unat x < LCDWIDTH" and y: "unat y < LCDHEIGHT"
    and x': "x' < LCDWIDTH" and y': "y' < LCDHEIGHT"
  shows "pixel_bit (pixel fb x y color mode) x' y' =
     (if x' = unat x \<and> y' = unat y
      then (if mode = XOR_mode then (if color = WHITE then \<not> pixel_bit fb x' y' else pixel_bit fb x' y')
            else color = WHITE)
      else pixel_bit fb x' y')"
proof -
  let ?i = "unat x + (unat y div 8) * LCDWIDTH"
  let ?i' = "x' + (y' div 8) * LCDWIDTH"
  have i: "?i < length fb" using pixel_index_bound [OF x y] len by simp
  have i': "?i' < length fb" using pixel_index_bound [OF x' y'] len by simp
  have m: "unat y mod 8 < 8" by simp
  have inj: "?i = ?i' \<and> unat y mod 8 = y' mod 8 \<longleftrightarrow> unat x = x' \<and> unat y = y'"
    by (rule index_inj [OF x x'])
  show ?thesis
  proof (cases "?i = ?i'")
    case True
    with inj have eq: "(unat y mod 8 = y' mod 8) = (x' = unat x \<and> y' = unat y)" by auto
    have "pixel_bit (pixel fb x y color mode) x' y' =
        (if unat y mod 8 = y' mod 8
         then (if mode = XOR_mode then (if color = WHITE then \<not> pixel_bit fb x' y' else pixel_bit fb x' y')
            else color = WHITE)
         else pixel_bit fb x' y')"
      using x y i True [symmetric] i'
      by (auto simp: pixel_def pixel_bit_def Let_def bit_simps bit_BV)
    then show ?thesis unfolding eq .
  next
    case False
    with inj have ne: "\<not> (x' = unat x \<and> y' = unat y)" by auto
    moreover have "pixel_bit (pixel fb x y color mode) x' y' = pixel_bit fb x' y'"
      using x y i False i'
      by (auto simp: pixel_def pixel_bit_def Let_def)
    ultimately show ?thesis by (simp only: if_False)
  qed
qed

lemma pixel_xor_twice: "pixel (pixel fb x y WHITE XOR_mode) x y WHITE XOR_mode = fb"
proof -
  let ?i = "unat x + (unat y div 8) * LCDWIDTH"
  show ?thesis
  proof (cases "?i < length fb")
    case True
    then show ?thesis by (simp add: pixel_def Let_def xor.assoc)
  next
    case False
    then have "fb[?i := v] = fb" for v by (simp add: list_update_beyond)
    then show ?thesis by (simp add: pixel_def Let_def)
  qed
qed

lemma pixel_xor_black: "pixel fb x y BLACK XOR_mode = fb"
  by (simp add: pixel_def BLACK_def WHITE_def Let_def)

subsection \<open>Lines and rectangles as sequences of pixel calls\<close>

lemma line_loop_plots_eq:
  "line_loop fb steep x0 y0 x1 dx dy err ystep color mode =
   plot_all fb (line_loop_plots steep x0 y0 x1 dx dy err ystep color mode)"
proof (induction steep x0 y0 x1 dx dy err ystep color mode arbitrary: fb
    rule: line_loop_plots.induct)
  case (1 steep x0 y0 x1 dx dy err ystep color mode)
  show ?case
  proof (cases "x0 < x1")
    case False
    then show ?thesis
      by (subst line_loop.simps, subst line_loop_plots.simps) simp
  next
    case True
    show ?thesis
    proof (cases "sint (err - dy) < 0")
      case neg: True
      show ?thesis
        using True neg "1.IH"(1) [OF True refl refl neg]
        by (subst line_loop.simps, subst line_loop_plots.simps) (simp add: Let_def)
    next
      case pos: False
      show ?thesis
        using True pos "1.IH"(2) [OF True refl refl pos]
        by (subst line_loop.simps, subst line_loop_plots.simps) (simp add: Let_def)
    qed
  qed
qed

lemma line_plots_eq: "line fb x0 y0 x1 y1 color mode = plot_all fb (line_plots x0 y0 x1 y1 color mode)"
  unfolding line_def line_plots_def Let_def line_loop_plots_eq
  by (simp only: prod.case_distrib [of "plot_all fb"])

lemma lineH_plots_eq: "lineH fb x y w color mode = plot_all fb (lineH_plots x y w color mode)"
  by (simp only: lineH_def lineH_plots_def line_plots_eq)

lemma lineV_plots_eq: "lineV fb x y h color mode = plot_all fb (lineV_plots x y h color mode)"
  by (simp only: lineV_def lineV_plots_def line_plots_eq)

lemma rect_plots_eq: "rect fb x y w h color mode = plot_all fb (rect_plots x y w h color mode)"
proof (cases "h - 2 < 1")
  case True
  then show ?thesis
    unfolding rect_def rect_plots_def Let_def lineH_plots_eq lineV_plots_eq
    by (simp only: if_True plot_all_append append_Nil2)
next
  case False
  then show ?thesis
    unfolding rect_def rect_plots_def Let_def lineH_plots_eq lineV_plots_eq
    by (simp only: if_False plot_all_append)
qed

lemma u8_int_less: "k < unat (w::u8) \<longleftrightarrow> int k < uint w"
proof -
  have "int k < int (unat w) \<longleftrightarrow> k < unat w" by (rule of_nat_less_iff)
  then show ?thesis by simp
qed

lemma rectFill_loop_step:
  assumes "k < unat w"
  shows "rectFill_loop fb (uint x + int k) x y w h color mode =
         rectFill_loop (lineV fb (x + word_of_nat k) y h color mode) (uint x + int (Suc k)) x y w h color mode"
proof -
  from assms have c: "uint x + int k < uint x + uint w" by (simp add: u8_int_less)
  have w: "(word_of_int (uint x + int k) :: u8) = x + word_of_nat k" by simp
  have a: "uint x + int k + 1 = uint x + int (Suc k)" by simp
  have "rectFill_loop fb (uint x + int k) x y w h color mode =
      (if uint x + int k < uint x + uint w
       then rectFill_loop (lineV fb (word_of_int (uint x + int k)) y h color mode)
              (uint x + int k + 1) x y w h color mode
       else fb)"
    by (rule rectFill_loop.simps)
  also have "\<dots> = rectFill_loop (lineV fb (x + word_of_nat k) y h color mode)
      (uint x + int (Suc k)) x y w h color mode"
    by (simp only: c if_True w a)
  finally show ?thesis .
qed

lemma rectFill_loop_done:
  assumes "\<not> k < unat w"
  shows "rectFill_loop fb (uint x + int k) x y w h color mode = fb"
proof -
  from assms have c: "\<not> uint x + int k < uint x + uint w" by (simp add: u8_int_less)
  have "rectFill_loop fb (uint x + int k) x y w h color mode =
      (if uint x + int k < uint x + uint w
       then rectFill_loop (lineV fb (word_of_int (uint x + int k)) y h color mode)
              (uint x + int k + 1) x y w h color mode
       else fb)"
    by (rule rectFill_loop.simps)
  then show ?thesis by (simp only: c if_False)
qed

lemma rectFill_loop_plots_eq:
  "rectFill_loop fb (uint x + int k) x y w h color mode =
   plot_all fb (concat (map (\<lambda>k. lineV_plots (x + word_of_nat k) y h color mode) [k..<unat w]))"
proof (induction "unat w - k" arbitrary: k fb)
  case 0
  then have nk: "\<not> k < unat w" by linarith
  then have "[k..<unat w] = []" by (simp only: upt_rec [of k] if_False)
  then show ?case
    by (simp only: rectFill_loop_done [OF nk] concat.simps list.map plot_all_Nil)
next
  case (Suc n)
  then have lt: "k < unat w" by linarith
  have "n = unat w - Suc k" using Suc(2) by linarith
  from Suc(1) [OF this] show ?case
    by (simp only: rectFill_loop_step [OF lt] upt_conv_Cons [OF lt] lineV_plots_eq
        list.map concat.simps plot_all_append)
qed

lemma rectFill_plots_eq: "rectFill fb x y w h color mode = plot_all fb (rectFill_plots x y w h color mode)"
proof -
  have "uint x + int 0 = uint x" by simp
  with rectFill_loop_plots_eq [of fb x 0 y w h color mode] show ?thesis
    by (simp only: rectFill_def rectFill_plots_def)
qed

subsection \<open>Clipping, exclusive-or and clearing\<close>

text \<open>
  C1. A \<open>pixel\<close> call at a coordinate with \<open>x \<ge> LCDWIDTH\<close> or \<open>y \<ge> LCDHEIGHT\<close>, with
  any colour and mode, returns the page buffer as it was. Consequently a sequence of
  \<open>pixel\<close> calls has the effect of its on-screen calls alone, and so have \<open>line\<close>,
  \<open>lineH\<close>, \<open>lineV\<close>, \<open>rect\<close> and \<open>rectFill\<close>, which change the buffer through \<open>pixel\<close>
  calls only.
\<close>

theorem off_screen_plots_discarded:
  "(LCDWIDTH \<le> unat x \<or> LCDHEIGHT \<le> unat y \<longrightarrow> pixel fb x y color mode = fb)
   \<and> plot_all fb ps = plot_all fb (filter on_screen ps)
   \<and> line fb x0 y0 x1 y1 color mode =
       plot_all fb (filter on_screen (line_plots x0 y0 x1 y1 color mode))
   \<and> lineH fb x0 y0 w color mode = plot_all fb (filter on_screen (lineH_plots x0 y0 w color mode))
   \<and> lineV fb x0 y0 h color mode = plot_all fb (filter on_screen (lineV_plots x0 y0 h color mode))
   \<and> rect fb x0 y0 w h color mode = plot_all fb (filter on_screen (rect_plots x0 y0 w h color mode))
   \<and> rectFill fb x0 y0 w h color mode =
       plot_all fb (filter on_screen (rectFill_plots x0 y0 w h color mode))"
proof -
  have "LCDWIDTH \<le> unat x \<or> LCDHEIGHT \<le> unat y \<longrightarrow> pixel fb x y color mode = fb"
    using pixel_off_screen [of x y fb color mode] by blast
  then show ?thesis
    by (simp only: plot_all_on_screen line_plots_eq lineH_plots_eq lineV_plots_eq rect_plots_eq
        rectFill_plots_eq simp_thms)
qed

theorem off_screen_plots_discarded_witness:
  "pixel (replicate 384 0) 64 0 WHITE NORM = replicate 384 0
   \<and> pixel (replicate 384 0) 0 48 WHITE XOR_mode = replicate 384 0
   \<and> plot_all (replicate 384 0) [(200, 3, WHITE, NORM), (3, 200, WHITE, NORM)] = replicate 384 0"
proof -
  have a: "LCDWIDTH \<le> unat (64 :: u8) \<or> LCDHEIGHT \<le> unat (0 :: u8)" by (simp add: LCDWIDTH_def)
  have b: "LCDWIDTH \<le> unat (0 :: u8) \<or> LCDHEIGHT \<le> unat (48 :: u8)" by (simp add: LCDHEIGHT_def)
  have c: "filter on_screen [(200, 3, WHITE, NORM), (3, 200, WHITE, NORM)] = []"
    by (simp add: on_screen_def LCDWIDTH_def LCDHEIGHT_def)
  from off_screen_plots_discarded [of 64 0 "replicate 384 0" WHITE NORM]
       off_screen_plots_discarded [of 0 48 "replicate 384 0" WHITE XOR_mode]
       off_screen_plots_discarded [of _ _ "replicate 384 0" _ _ "[(200, 3, WHITE, NORM), (3, 200, WHITE, NORM)]"]
       a b c
  show ?thesis by (simp only: plot_all_Nil simp_thms)
qed

text \<open>
  C2. At an on-screen coordinate, one \<open>pixel\<close> call in XOR mode with colour \<open>WHITE\<close>
  inverts the bit of that coordinate, and a second identical call restores the bit, and
  with it the whole page buffer; one call in XOR mode with colour \<open>BLACK\<close> leaves the
  whole page buffer as it was.
\<close>

theorem pixel_xor_involution:
  assumes "unat x < LCDWIDTH" and "unat y < LCDHEIGHT"
    and "length fb = LCDWIDTH * LCDHEIGHT div 8"
  shows "pixel_bit (pixel fb x y WHITE XOR_mode) (unat x) (unat y) = (\<not> pixel_bit fb (unat x) (unat y))
    \<and> pixel_bit (pixel (pixel fb x y WHITE XOR_mode) x y WHITE XOR_mode) (unat x) (unat y)
        = pixel_bit fb (unat x) (unat y)
    \<and> pixel (pixel fb x y WHITE XOR_mode) x y WHITE XOR_mode = fb
    \<and> pixel fb x y BLACK XOR_mode = fb"
proof -
  have "pixel_bit (pixel fb x y WHITE XOR_mode) (unat x) (unat y) = (\<not> pixel_bit fb (unat x) (unat y))"
    using pixel_bit_pixel [OF assms(3) assms(1) assms(2) assms(1) assms(2), of WHITE XOR_mode]
    by (simp only: simp_thms if_True)
  then show ?thesis
    by (simp only: pixel_xor_twice pixel_xor_black simp_thms)
qed

theorem pixel_xor_involution_witness:
  "\<not> pixel_bit (replicate 384 0) 3 10
   \<and> pixel_bit (pixel (replicate 384 0) 3 10 WHITE XOR_mode) 3 10
   \<and> pixel (pixel (replicate 384 0) 3 10 WHITE XOR_mode) 3 10 WHITE XOR_mode = replicate 384 0
   \<and> pixel (replicate 384 0) 3 10 BLACK XOR_mode = replicate 384 0"
proof -
  have a: "unat (3 :: u8) < LCDWIDTH" by (simp add: LCDWIDTH_def)
  have b: "unat (10 :: u8) < LCDHEIGHT" by (simp add: LCDHEIGHT_def)
  have c: "length (replicate 384 (0 :: u8)) = LCDWIDTH * LCDHEIGHT div 8"
    by (simp add: LCDWIDTH_def LCDHEIGHT_def)
  have d: "\<not> pixel_bit (replicate 384 0) 3 10"
    by (simp add: pixel_bit_def LCDWIDTH_def)
  have e: "unat (3 :: u8) = 3" "unat (10 :: u8) = 10" by simp_all
  from pixel_xor_involution [OF a b c] d show ?thesis
    unfolding e by (simp only: simp_thms)
qed

text \<open>
  C3. With a mode other than \<open>ALL\<close> (so with \<open>PAGE\<close>), \<open>clear\<close> with a fill byte \<open>c\<close>
  overwrites each of the \<open>LCDWIDTH * LCDHEIGHT div 8\<close> bytes of the page buffer with \<open>c\<close>,
  and \<open>clear\<close> without a fill byte overwrites them with 0. After filling with 0 the bit
  of every on-screen coordinate, read at byte \<open>x + (y div 8) * LCDWIDTH\<close> and bit
  \<open>y mod 8\<close>, is clear; after filling with \<open>0xFF\<close> it is set.
\<close>

theorem clear_page_fills_buffer:
  assumes "length fb = LCDWIDTH * LCDHEIGHT div 8"
  shows "clear2 fb PAGE c = replicate (LCDWIDTH * LCDHEIGHT div 8) c
    \<and> clear1 fb PAGE = replicate (LCDWIDTH * LCDHEIGHT div 8) 0
    \<and> (\<forall>i < LCDWIDTH * LCDHEIGHT div 8. clear2 fb PAGE c ! i = c \<and> clear1 fb PAGE ! i = 0)
    \<and> (\<forall>x < LCDWIDTH. \<forall>y < LCDHEIGHT.
          \<not> pixel_bit (clear2 fb PAGE 0) x y \<and> \<not> pixel_bit (clear1 fb PAGE) x y
          \<and> pixel_bit (clear2 fb PAGE 0xFF) x y)"
proof -
  let ?n = "LCDWIDTH * LCDHEIGHT div 8"
  have m: "memset fb v ?n = replicate ?n v" for v
    using assms by (simp add: memset_def)
  have p: "PAGE \<noteq> ALL_mode" by (simp add: PAGE_def ALL_mode_def)
  have c2: "clear2 fb PAGE v = replicate ?n v" for v
    by (simp only: clear2_def p if_False m)
  have c1: "clear1 fb PAGE = replicate ?n 0"
    by (simp only: clear1_def p if_False m)
  have bits: "pixel_bit (replicate ?n v) x y = bit v (y mod 8)"
    if "x < LCDWIDTH" "y < LCDHEIGHT" for v x y
    using pixel_index_bound [OF that] by (simp only: pixel_bit_def nth_replicate)
  have ff: "bit (0xFF :: u8) k" if "k < 8" for k
  proof -
    have e: "(0xFF :: u8) = - 1" by simp
    have "bit (- 1 :: u8) k" using that by (simp add: bit_simps)
    then show ?thesis unfolding e .
  qed
  have z: "\<not> pixel_bit (replicate ?n 0) x y" if "x < LCDWIDTH" "y < LCDHEIGHT" for x y
    by (simp add: bits [OF that])
  have f: "pixel_bit (replicate ?n 0xFF) x y" if "x < LCDWIDTH" "y < LCDHEIGHT" for x y
    by (simp only: bits [OF that]) (rule ff, simp)
  have n: "replicate ?n v ! i = v" if "i < ?n" for v :: u8 and i
    using that by (rule nth_replicate)
  show ?thesis
    unfolding c1 c2 using z f n by blast
qed

theorem clear_page_fills_buffer_witness:
  "clear2 (replicate 384 7) PAGE 0xA5 = replicate 384 0xA5
   \<and> clear1 (replicate 384 7) PAGE = replicate 384 0
   \<and> clear2 (replicate 384 7) PAGE 0xA5 ! 383 = 0xA5
   \<and> \<not> pixel_bit (clear2 (replicate 384 7) PAGE 0) 63 47
   \<and> pixel_bit (clear2 (replicate 384 7) PAGE 0xFF) 63 47"
proof -
  have n: "LCDWIDTH * LCDHEIGHT div 8 = 384" by (simp add: LCDWIDTH_def LCDHEIGHT_def)
  have len: "length (replicate 384 (7 :: u8)) = LCDWIDTH * LCDHEIGHT div 8"
    unfolding n by simp
  have w: "(63 :: nat) < LCDWIDTH" by (simp add: LCDWIDTH_def)
  have h: "(47 :: nat) < LCDHEIGHT" by (simp add: LCDHEIGHT_def)
  have i: "(383 :: nat) < LCDWIDTH * LCDHEIGHT div 8" unfolding n by simp
  from clear_page_fills_buffer [OF len, of "0xA5"] w h i show ?thesis
    unfolding n by blast
qed

subsection \<open>Early returns\<close>

text \<open>
  C6. For every centre, radius and colour, \<open>circleFill\<close> in XOR mode returns, and the
  page buffer it returns is the one it was given.
\<close>

theorem circleFill_xor_unchanged:
  "circleFill fb x0 y0 radius color XOR_mode = Some fb"
  by (simp only: circleFill_def simp_thms if_True)

theorem circleFill_xor_unchanged_witness:
  "circleFill (replicate 384 0) 32 24 10 WHITE XOR_mode = Some (replicate 384 0)"
  by (rule circleFill_xor_unchanged)

text \<open>
  C7. \<open>setFontType\<close> with an index \<open>type \<ge> TOTALFONTS\<close> returns \<open>false\<close> and leaves the
  object, and so the six font fields, as they were; with \<open>type < TOTALFONTS\<close> it returns
  \<open>true\<close>, sets \<open>fontType\<close> to \<open>type\<close> and loads width, height, first character, character
  count and map width (byte 4 times 100 plus byte 5) from the six header bytes of that
  font, leaving the other members as they were.
\<close>

theorem setFontType_result:
  "(TOTALFONTS \<le> unat type \<longrightarrow> setFontType fontsPointer this type = (False, this))
   \<and> (unat type < TOTALFONTS \<longrightarrow>
        fst (setFontType fontsPointer this type) = True
        \<and> snd (setFontType fontsPointer this type) =
            this\<lparr>fontType := type,
                 fontWidth := fontsPointer ! unat type ! 0,
                 fontHeight := fontsPointer ! unat type ! 1,
                 fontStartChar := fontsPointer ! unat type ! 2,
                 fontTotalChar := fontsPointer ! unat type ! 3,
                 fontMapWidth := word_of_nat (unat (fontsPointer ! unat type ! 4) * 100
                                              + unat (fontsPointer ! unat type ! 5))\<rparr>)"
  by (simp add: setFontType_def Let_def not_le)

theorem setFontType_result_witness:
  "setFontType [font5x7_header, font8x16_header, font5x7_header, font8x16_header] oled0 4
     = (False, oled0)
   \<and> setFontType [font5x7_header, font8x16_header, font5x7_header, font8x16_header] oled0 1
     = (True, oled0\<lparr>fontType := 1, fontWidth := 8, fontHeight := 16, fontStartChar := 32,
                      fontTotalChar := 96, fontMapWidth := 256\<rparr>)"
proof -
  let ?fp = "[font5x7_header, font8x16_header, font5x7_header, font8x16_header]"
  have a: "TOTALFONTS \<le> unat (4 :: u8)" by (simp add: TOTALFONTS_def)
  have b: "unat (1 :: u8) < TOTALFONTS" by (simp add: TOTALFONTS_def)
  have 1: "setFontType ?fp oled0 4 = (False, oled0)"
    by (rule setFontType_result [of 4 ?fp oled0, THEN conjunct1, rule_format, OF a])
  have 2: "setFontType ?fp oled0 1 = (True, oled0\<lparr>fontType := 1,
                 fontWidth := ?fp ! unat (1 :: u8) ! 0,
                 fontHeight := ?fp ! unat (1 :: u8) ! 1,
                 fontStartChar := ?fp ! unat (1 :: u8) ! 2,
                 fontTotalChar := ?fp ! unat (1 :: u8) ! 3,
                 fontMapWidth := word_of_nat (unat (?fp ! unat (1 :: u8) ! 4) * 100
                                              + unat (?fp ! unat (1 :: u8) ! 5))\<rparr>)"
    using setFontType_result [of 1 ?fp oled0, THEN conjunct2, rule_format, OF b]
    by (simp only: prod_eq_iff fst_conv snd_conv simp_thms)
  show ?thesis
    unfolding 1 2 by (simp add: font8x16_header_def)
qed

text \<open>
  C10. For a character code below \<open>fontStartChar\<close> or above
  \<open>fontStartChar + fontTotalChar - 1\<close> (the sum taken in \<^verbatim>\<open>int\<close>), \<open>drawChar\<close> returns,
  and the page buffer it returns is the one it was given: no pixel is plotted.
\<close>

theorem drawChar_out_of_range:
  assumes "uint c < uint (fontStartChar this)
           \<or> uint c > uint (fontStartChar this) + uint (fontTotalChar this) - 1"
  shows "drawChar fontsPointer this fb x y c color mode = Some fb"
  using assms by (simp only: drawChar_def if_True)

theorem drawChar_out_of_range_witness:
  "drawChar [font5x7_header, font8x16_header, font5x7_header, font8x16_header]
     (oled0\<lparr>fontType := 1, fontWidth := 8, fontHeight := 16, fontStartChar := 32,
            fontTotalChar := 96, fontMapWidth := 256\<rparr>)
     (replicate 384 0) 0 0 128 WHITE NORM = Some (replicate 384 0)
   \<and> drawChar [font5x7_header, font8x16_header, font5x7_header, font8x16_header]
     (oled0\<lparr>fontType := 1, fontWidth := 8, fontHeight := 16, fontStartChar := 32,
            fontTotalChar := 96, fontMapWidth := 256\<rparr>)
     (replicate 384 0) 0 0 31 WHITE NORM = Some (replicate 384 0)"
proof -
  let ?s = "oled0\<lparr>fontType := 1, fontWidth := 8, fontHeight := 16, fontStartChar := 32,
            fontTotalChar := 96, fontMapWidth := 256\<rparr>"
  have a: "uint (128 :: u8) < uint (fontStartChar ?s)
           \<or> uint (128 :: u8) > uint (fontStartChar ?s) + uint (fontTotalChar ?s) - 1"
    by simp
  have b: "uint (31 :: u8) < uint (fontStartChar ?s)
           \<or> uint (31 :: u8) > uint (fontStartChar ?s) + uint (fontTotalChar ?s) - 1"
    by simp
  from drawChar_out_of_range [OF a] drawChar_out_of_range [OF b] show ?thesis
    by (simp only: simp_thms)
qed

subsection \<open>Filled rectangles\<close>

lemma rectFill_loop_foldl:
  "rectFill_loop fb i x y w h color mode =
   foldl (\<lambda>fb i. lineV fb (word_of_int i) y h color mode) fb [i .. uint x + uint w - 1]"
proof (induction fb i x y w h color mode rule: rectFill_loop.induct)
  case (1 fb i x y w h color mode)
  have eq: "rectFill_loop fb i x y w h color mode =
      (if i < uint x + uint w
       then rectFill_loop (lineV fb (word_of_int i) y h color mode) (i + 1) x y w h color mode
       else fb)"
    by (rule rectFill_loop.simps)
  show ?case
  proof (cases "i < uint x + uint w")
    case True
    then have "[i .. uint x + uint w - 1] = i # [i + 1 .. uint x + uint w - 1]"
      by (intro upto_rec1) linarith
    with True "1.IH" [OF True] eq show ?thesis by (simp only: if_True foldl_Cons)
  next
    case False
    then have "[i .. uint x + uint w - 1] = []" by (intro upto_empty) linarith
    with False eq show ?thesis by (simp only: if_False foldl_Nil)
  qed
qed

lemma rectFill_2244_plots:
  "rectFill_plots 2 2 4 4 color mode =
     [(2, 2, color, mode), (2, 3, color, mode), (2, 4, color, mode), (2, 5, color, mode),
      (3, 2, color, mode), (3, 3, color, mode), (3, 4, color, mode), (3, 5, color, mode),
      (4, 2, color, mode), (4, 3, color, mode), (4, 4, color, mode), (4, 5, color, mode),
      (5, 2, color, mode), (5, 3, color, mode), (5, 4, color, mode), (5, 5, color, mode)]"
  by (simp add: rectFill_plots_def lineV_plots_def line_plots_def upt_rec)

lemma rectFill_2244_lines:
  "rectFill_plots 2 2 4 4 color mode =
     lineV_plots 2 2 4 color mode @ lineV_plots 3 2 4 color mode
     @ lineV_plots 4 2 4 color mode @ lineV_plots 5 2 4 color mode"
  by (simp add: rectFill_plots_def upt_rec)

lemma length_plot_all [simp]: "length (plot_all fb ps) = length fb"
  by (induction ps arbitrary: fb) (auto simp: plot_all_def)

lemma pixel_bit_plot_all_white:
  assumes "length fb = LCDWIDTH * LCDHEIGHT div 8"
    and "\<forall>p \<in> set ps. on_screen p \<and> fst (snd (snd p)) = WHITE \<and> snd (snd (snd p)) = NORM"
    and "x' < LCDWIDTH" and "y' < LCDHEIGHT"
  shows "pixel_bit (plot_all fb ps) x' y' \<longleftrightarrow>
         (x', y') \<in> (\<lambda>p. (unat (fst p), unat (fst (snd p)))) ` set ps \<or> pixel_bit fb x' y'"
  using assms(1,2)
proof (induction ps arbitrary: fb)
  case Nil
  show ?case by simp
next
  case (Cons p ps)
  obtain x y where p: "p = (x, y, WHITE, NORM)" and xy: "unat x < LCDWIDTH" "unat y < LCDHEIGHT"
    using Cons.prems(2) by (cases p) (auto simp: on_screen_def)
  have n: "NORM \<noteq> XOR_mode" by (simp add: NORM_def XOR_mode_def)
  have len: "length (pixel fb x y WHITE NORM) = LCDWIDTH * LCDHEIGHT div 8"
    using Cons.prems(1) by simp
  have IH: "pixel_bit (plot_all (pixel fb x y WHITE NORM) ps) x' y' \<longleftrightarrow>
         (x', y') \<in> (\<lambda>p. (unat (fst p), unat (fst (snd p)))) ` set ps
         \<or> pixel_bit (pixel fb x y WHITE NORM) x' y'"
    using Cons.IH [OF len] Cons.prems(2) by simp
  have px: "pixel_bit (pixel fb x y WHITE NORM) x' y' \<longleftrightarrow>
      (x' = unat x \<and> y' = unat y) \<or> pixel_bit fb x' y'"
    using pixel_bit_pixel [OF Cons.prems(1) xy assms(3,4), of WHITE NORM] n by auto
  show ?case
    unfolding p plot_all_Cons IH px by auto
qed

lemma rectFill_2244_bits:
  assumes "length fb = LCDWIDTH * LCDHEIGHT div 8" and "x' < LCDWIDTH" and "y' < LCDHEIGHT"
  shows "pixel_bit (rectFill fb 2 2 4 4 WHITE NORM) x' y' \<longleftrightarrow>
         (2 \<le> x' \<and> x' \<le> 5 \<and> 2 \<le> y' \<and> y' \<le> 5) \<or> pixel_bit fb x' y'"
proof -
  let ?ps = "rectFill_plots 2 2 4 4 WHITE NORM"
  have a: "\<forall>p \<in> set ?ps. on_screen p \<and> fst (snd (snd p)) = WHITE \<and> snd (snd (snd p)) = NORM"
    unfolding rectFill_2244_plots by (simp add: on_screen_def LCDWIDTH_def LCDHEIGHT_def)
  have b: "(x', y') \<in> (\<lambda>p. (unat (fst p), unat (fst (snd p)))) ` set ?ps \<longleftrightarrow>
      (2 \<le> x' \<and> x' \<le> 5 \<and> 2 \<le> y' \<and> y' \<le> 5)"
    unfolding rectFill_2244_plots by (simp add: image_iff) arith
  show ?thesis
    unfolding rectFill_plots_eq pixel_bit_plot_all_white [OF assms(1) a assms(2,3)] b ..
qed

text \<open>
  C8. The page buffer after \<open>rectFill x y width height\<close> is the one after the calls
  \<open>lineV i y height\<close> for \<open>i = x, \<dots>, x + width - 1\<close> in this order (\<open>i\<close> an \<^verbatim>\<open>int\<close>,
  narrowed to \<^verbatim>\<open>uint8_t\<close> by the call). In particular \<open>rectFill 2 2 4 4\<close> is the four
  vertical lines at \<open>x = 2, 3, 4, 5\<close>, each of which plots the rows \<open>y = 2, \<dots>, 5\<close>, and
  in overwrite mode with colour \<open>WHITE\<close> it sets exactly the on-screen pixels with
  \<open>2 \<le> x \<le> 5\<close> and \<open>2 \<le> y \<le> 5\<close>, every other pixel keeping its state.
\<close>

theorem rectFill_is_lineV_columns:
  "rectFill fb x y width height color mode =
     foldl (\<lambda>fb i. lineV fb (word_of_int i) y height color mode) fb
       [uint x .. uint x + uint width - 1]
   \<and> rectFill fb 2 2 4 4 color mode =
       lineV (lineV (lineV (lineV fb 2 2 4 color mode) 3 2 4 color mode) 4 2 4 color mode)
         5 2 4 color mode
   \<and> (\<forall>i \<in> {2, 3, 4, 5}.
         lineV_plots i 2 4 color mode =
           [(i, 2, color, mode), (i, 3, color, mode), (i, 4, color, mode), (i, 5, color, mode)])
   \<and> (length fb = LCDWIDTH * LCDHEIGHT div 8 \<longrightarrow>
        (\<forall>x' < LCDWIDTH. \<forall>y' < LCDHEIGHT.
           pixel_bit (rectFill fb 2 2 4 4 WHITE NORM) x' y' \<longleftrightarrow>
             (2 \<le> x' \<and> x' \<le> 5 \<and> 2 \<le> y' \<and> y' \<le> 5) \<or> pixel_bit fb x' y'))"
proof -
  have 1: "rectFill fb x y width height color mode =
     foldl (\<lambda>fb i. lineV fb (word_of_int i) y height color mode) fb
       [uint x .. uint x + uint width - 1]"
    unfolding rectFill_def by (rule rectFill_loop_foldl)
  have 2: "rectFill fb 2 2 4 4 color mode =
       lineV (lineV (lineV (lineV fb 2 2 4 color mode) 3 2 4 color mode) 4 2 4 color mode)
         5 2 4 color mode"
    unfolding rectFill_plots_eq rectFill_2244_lines lineV_plots_eq plot_all_append ..
  have 3: "\<forall>i \<in> {2, 3, 4, 5}.
         lineV_plots i 2 4 color mode =
           [(i, 2, color, mode), (i, 3, color, mode), (i, 4, color, mode), (i, 5, color, mode)]"
    by (simp add: lineV_plots_def line_plots_def)
  from 1 2 3 rectFill_2244_bits [of fb] show ?thesis by blast
qed

theorem rectFill_is_lineV_columns_witness:
  "rectFill (replicate 384 0) 2 2 4 4 WHITE NORM =
     lineV (lineV (lineV (lineV (replicate 384 0) 2 2 4 WHITE NORM) 3 2 4 WHITE NORM)
       4 2 4 WHITE NORM) 5 2 4 WHITE NORM
   \<and> lineV_plots 3 2 4 WHITE NORM =
       [(3, 2, WHITE, NORM), (3, 3, WHITE, NORM), (3, 4, WHITE, NORM), (3, 5, WHITE, NORM)]
   \<and> pixel_bit (rectFill (replicate 384 0) 2 2 4 4 WHITE NORM) 5 2
   \<and> \<not> pixel_bit (rectFill (replicate 384 0) 2 2 4 4 WHITE NORM) 5 6"
proof -
  have len: "length (replicate 384 (0 :: u8)) = LCDWIDTH * LCDHEIGHT div 8"
    by (simp add: LCDWIDTH_def LCDHEIGHT_def)
  have w: "(5 :: nat) < LCDWIDTH" by (simp add: LCDWIDTH_def)
  have h: "(2 :: nat) < LCDHEIGHT" "(6 :: nat) < LCDHEIGHT" by (simp_all add: LCDHEIGHT_def)
  have z: "\<not> pixel_bit (replicate 384 0) 5 6" by (simp add: pixel_bit_def LCDWIDTH_def)
  have m: "(3 :: u8) \<in> {2, 3, 4, 5}" by simp
  note t = rectFill_is_lineV_columns [of "replicate 384 0" 2 2 4 4 WHITE NORM]
  from t have a: "rectFill (replicate 384 0) 2 2 4 4 WHITE NORM =
     lineV (lineV (lineV (lineV (replicate 384 0) 2 2 4 WHITE NORM) 3 2 4 WHITE NORM)
       4 2 4 WHITE NORM) 5 2 4 WHITE NORM"
    by (rule conjunct2 [THEN conjunct1])
  from t have "\<forall>i \<in> {2, 3, 4, 5}. lineV_plots i 2 4 WHITE NORM =
           [(i, 2, WHITE, NORM), (i, 3, WHITE, NORM), (i, 4, WHITE, NORM), (i, 5, WHITE, NORM)]"
    by (rule conjunct2 [THEN conjunct2, THEN conjunct1])
  from bspec [OF this m] have b: "lineV_plots 3 2 4 WHITE NORM =
       [(3, 2, WHITE, NORM), (3, 3, WHITE, NORM), (3, 4, WHITE, NORM), (3, 5, WHITE, NORM)]" .
  from t have c: "length (replicate 384 (0 :: u8)) = LCDWIDTH * LCDHEIGHT div 8 \<longrightarrow>
        (\<forall>x' < LCDWIDTH. \<forall>y' < LCDHEIGHT.
           pixel_bit (rectFill (replicate 384 0) 2 2 4 4 WHITE NORM) x' y' \<longleftrightarrow>
             (2 \<le> x' \<and> x' \<le> 5 \<and> 2 \<le> y' \<and> y' \<le> 5) \<or> pixel_bit (replicate 384 0) x' y')"
    by (rule conjunct2 [THEN conjunct2, THEN conjunct2])
  from c [rule_format, OF len w h(1)] have d: "pixel_bit (rectFill (replicate 384 0) 2 2 4 4 WHITE NORM) 5 2"
    by simp
  from c [rule_format, OF len w h(2)] z have e: "\<not> pixel_bit (rectFill (replicate 384 0) 2 2 4 4 WHITE NORM) 5 6"
    by simp
  from a b d e show ?thesis by (intro conjI)
qed

subsection \<open>Glyphs of one row\<close>













subsection \<open>A font as wide as the column counter\<close>





subsection \<open>Lines against integer Bresenham stepping\<close>

lemma s8_sint_of_int: "- 128 \<le> k \<Longrightarrow> k < 128 \<Longrightarrow> sint (word_of_int k :: s8) = k"
proof -
  assume a: "- 128 \<le> k" "k < 128"
  have "sint (word_of_int k :: s8) = signed_take_bit 7 k"
    using sint_sbintrunc' [of k, where 'a = 8] by simp
  also have "\<dots> = k"
    by (rule signed_take_bit_int_eq_self) (use a in simp_all)
  finally show ?thesis .
qed

lemma u8_less_uint: "(a :: u8) < b \<longleftrightarrow> uint a < uint b"
  by (rule word_less_alt)

lemma u8_unat_succ: "(a :: u8) < b \<Longrightarrow> unat (a + 1) = unat a + 1"
  by unat_arith

lemma u8_uint_succ: "(a :: u8) < b \<Longrightarrow> uint (a + 1) = uint a + 1"
proof -
  assume "a < b"
  then have "unat (a + 1) = unat a + 1" by (rule u8_unat_succ)
  then have "int (unat (a + 1)) = int (unat a) + 1" by linarith
  then show ?thesis unfolding uint_nat .
qed

lemma line_loop_plots_unfold:
  "line_loop_plots steep x0 y0 x1 dx dy err ystep color mode =
     (if x0 < x1 then
        (if steep then (y0, x0, color, mode) else (x0, y0, color, mode)) #
        (if sint (err - dy) < 0
         then line_loop_plots steep (x0 + 1) (y0 + ystep) x1 dx dy (err - dy + dx) ystep color mode
         else line_loop_plots steep (x0 + 1) y0 x1 dx dy (err - dy) ystep color mode)
      else [])"
proof -
  have "line_loop_plots steep x0 y0 x1 dx dy err ystep color mode =
     (if x0 < x1 then
        let p = (if steep then (y0, x0, color, mode) else (x0, y0, color, mode));
            err' = err - dy
        in if sint err' < 0
           then p # line_loop_plots steep (x0 + 1) (y0 + ystep) x1 dx dy (err' + dx) ystep color mode
           else p # line_loop_plots steep (x0 + 1) y0 x1 dx dy err' ystep color mode
      else [])"
    by (rule line_loop_plots.simps)
  then show ?thesis
    unfolding Let_def by (simp only: if_distrib [of "Cons _", symmetric])
qed

lemma line_loop_bresenham:
  assumes "0 \<le> dy" and "dy \<le> dx" and "dx \<le> 128"
    and "0 \<le> e" and "e < dx"
    and "uint x0 + int n = uint x1"
  shows "line_loop_plots steep x0 (word_of_int y) x1 (word_of_int dx) (word_of_int dy)
           (word_of_int e) (word_of_int ystep) color mode
         = map (to_plot steep color mode) (bresenham n (uint x0) y dx dy e ystep)"
  using assms(4-6)
proof (induction n arbitrary: x0 y e)
  case 0
  then have "\<not> x0 < x1" by (simp add: u8_less_uint)
  then show ?case
    by (subst line_loop_plots_unfold) (simp only: if_False bresenham.simps list.map)
next
  case (Suc n)
  then have lt: "x0 < x1" by (simp add: u8_less_uint)
  have x: "uint (x0 + 1) + int n = uint x1"
    using Suc.prems(3) u8_uint_succ [OF lt] by linarith
  have ux: "uint (x0 + 1) = uint x0 + 1" by (rule u8_uint_succ [OF lt])
  have sub: "(word_of_int e :: s8) - word_of_int dy = word_of_int (e - dy)" by (rule wi_hom_sub)
  have add: "(word_of_int (e - dy) :: s8) + word_of_int dx = word_of_int (e - dy + dx)"
    by (rule wi_hom_add)
  have yadd: "(word_of_int y :: u8) + word_of_int ystep = word_of_int (y + ystep)"
    by (rule wi_hom_add)
  have "- 128 \<le> e - dy" "e - dy < 128" using assms(1-3) Suc.prems(1,2) by linarith+
  then have s: "sint (word_of_int (e - dy) :: s8) = e - dy" by (rule s8_sint_of_int)
  have p: "(if steep then (word_of_int y, x0, color, mode) else (x0, word_of_int y, color, mode))
      = to_plot steep color mode (uint x0, y)"
    by (simp add: to_plot_def)
  show ?case
  proof (cases "e - dy < 0")
    case True
    have e: "0 \<le> e - dy + dx" "e - dy + dx < dx" using True assms(2) Suc.prems(1) by linarith+
    show ?thesis
      by (subst line_loop_plots_unfold)
        (simp only: lt if_True sub add yadd s True p bresenham.simps list.map ux [symmetric]
          Suc.IH [OF e x])
  next
    case False
    then have e: "0 \<le> e - dy" "e - dy < dx" using assms(1) Suc.prems(2) by linarith+
    show ?thesis
      by (subst line_loop_plots_unfold)
        (simp only: lt if_True sub s False if_False p bresenham.simps list.map ux [symmetric]
          Suc.IH [OF e x])
  qed
qed

lemma to_plot_transpose:
  "map (to_u8 color mode) (map (\<lambda>(a, b). if steep then (b, a) else (a, b)) ps)
   = map (to_plot steep color mode) ps"
  by (induction ps) (auto simp: to_u8_def to_plot_def)

lemma line_loop_ordered:
  assumes "uint c0 \<le> uint c1" and "\<bar>uint d1 - uint d0\<bar> \<le> uint c1 - uint c0"
    and "uint c1 - uint c0 \<le> 128"
  shows "line_loop_plots steep c0 d0 c1 (c1 - c0) (word_of_int \<bar>uint d1 - uint d0\<bar>)
           (word_of_int (uint (c1 - c0) div 2)) (if d0 < d1 then 1 else - 1) color mode
       = map (to_plot steep color mode)
           (bresenham (nat (uint c1 - uint c0)) (uint c0) (uint d0) (uint c1 - uint c0)
              \<bar>uint d1 - uint d0\<bar> ((uint c1 - uint c0) div 2)
              (if uint d0 < uint d1 then 1 else - 1))"
proof (cases "uint c0 = uint c1")
  case True
  then have "\<not> c0 < c1" by (simp add: u8_less_uint)
  moreover have "nat (uint c1 - uint c0) = 0" using True by simp
  ultimately show ?thesis
    by (subst line_loop_plots_unfold) (simp only: if_False bresenham.simps list.map)
next
  case False
  let ?dx = "uint c1 - uint c0"
  let ?dy = "\<bar>uint d1 - uint d0\<bar>"
  have dx: "0 < ?dx" using False assms(1) by linarith
  have u: "uint (c1 - c0) = ?dx" using assms(1) by (simp add: uint_sub_lem [THEN iffD1])
  have w: "c1 - c0 = word_of_int ?dx" by (simp only: wi_hom_sub [symmetric] word_of_int_uint)
  have d: "d0 = word_of_int (uint d0)" by (simp only: word_of_int_uint)
  have ys: "(if d0 < d1 then 1 else - 1 :: s8) = word_of_int (if uint d0 < uint d1 then 1 else - 1)"
    by (simp add: u8_less_uint)
  have e: "0 \<le> ?dx div 2" "?dx div 2 < ?dx" using dx by simp_all
  have n: "uint c0 + int (nat ?dx) = uint c1" using assms(1) by simp
  have "line_loop_plots steep c0 (word_of_int (uint d0)) c1 (word_of_int ?dx) (word_of_int ?dy)
           (word_of_int (?dx div 2)) (word_of_int (if uint d0 < uint d1 then 1 else - 1)) color mode
       = map (to_plot steep color mode)
           (bresenham (nat ?dx) (uint c0) (uint d0) ?dx ?dy (?dx div 2)
              (if uint d0 < uint d1 then 1 else - 1))"
    by (rule line_loop_bresenham [OF abs_ge_zero assms(2) assms(3) e n])
  then show ?thesis
    unfolding u ys [symmetric] w [symmetric] d [symmetric] .
qed

lemma to_plot_transpose_steep:
  "map (to_u8 color mode) (map (\<lambda>(a, b). (b, a)) ps) = map (to_plot True color mode) ps"
  by (induction ps) (auto simp: to_u8_def to_plot_def)

lemma to_plot_transpose_flat:
  "map (to_u8 color mode) (map (\<lambda>(a, b). (a, b)) ps) = map (to_plot False color mode) ps"
  by (induction ps) (auto simp: to_u8_def to_plot_def)

lemma line_plots_bresenham:
  assumes dx: "\<bar>uint x1 - uint x0\<bar> \<le> 128" and dy: "\<bar>uint y1 - uint y0\<bar> \<le> 128"
  shows "line_plots x0 y0 x1 y1 color mode =
         map (to_u8 color mode) (bresenham_line (uint x0) (uint y0) (uint x1) (uint y1))"
proof (cases "\<bar>uint y1 - uint y0\<bar> > \<bar>uint x1 - uint x0\<bar>")
  case steep: True
  show ?thesis
  proof (cases "y0 > y1")
    case swap: True
    then have i: "uint y0 > uint y1" by (simp only: u8_less_uint)
    have o: "uint y1 \<le> uint y0" "\<bar>uint x0 - uint x1\<bar> \<le> uint y0 - uint y1" "uint y0 - uint y1 \<le> 128"
      using i steep dy by linarith+
    show ?thesis
      unfolding line_plots_def bresenham_line_def Let_def
      by (simp only: steep swap i if_True prod.case to_plot_transpose_steep to_plot_transpose_flat line_loop_ordered [OF o])
  next
    case noswap: False
    have i: "\<not> uint y0 > uint y1" using noswap unfolding u8_less_uint .
    have o: "uint y0 \<le> uint y1" "\<bar>uint x1 - uint x0\<bar> \<le> uint y1 - uint y0" "uint y1 - uint y0 \<le> 128"
      using i steep dy by linarith+
    show ?thesis
      unfolding line_plots_def bresenham_line_def Let_def
      by (simp only: steep noswap i if_True if_False prod.case to_plot_transpose_steep to_plot_transpose_flat
          line_loop_ordered [OF o])
  qed
next
  case flat: False
  show ?thesis
  proof (cases "x0 > x1")
    case swap: True
    then have i: "uint x0 > uint x1" by (simp only: u8_less_uint)
    have o: "uint x1 \<le> uint x0" "\<bar>uint y0 - uint y1\<bar> \<le> uint x0 - uint x1" "uint x0 - uint x1 \<le> 128"
      using i flat dx by linarith+
    show ?thesis
      unfolding line_plots_def bresenham_line_def Let_def
      by (simp only: flat swap i if_True if_False prod.case to_plot_transpose_steep to_plot_transpose_flat
          line_loop_ordered [OF o])
  next
    case noswap: False
    have i: "\<not> uint x0 > uint x1" using noswap unfolding u8_less_uint .
    have o: "uint x0 \<le> uint x1" "\<bar>uint y1 - uint y0\<bar> \<le> uint x1 - uint x0" "uint x1 - uint x0 \<le> 128"
      using i flat dx by linarith+
    show ?thesis
      unfolding line_plots_def bresenham_line_def Let_def
      by (simp only: flat noswap i if_False prod.case to_plot_transpose_steep to_plot_transpose_flat
          line_loop_ordered [OF o])
  qed
qed

lemma line_loop_plots_major:
  "map (\<lambda>p. if steep then unat (fst (snd p)) else unat (fst p))
     (line_loop_plots steep x0 y0 x1 dx dy err ystep color mode) = [unat x0..<unat x1]"
proof (induction steep x0 y0 x1 dx dy err ystep color mode rule: line_loop_plots.induct)
  case (1 steep x0 y0 x1 dx dy err ystep color mode)
  show ?case
  proof (cases "x0 < x1")
    case False
    then have "\<not> unat x0 < unat x1" unfolding word_less_nat_alt .
    then have "[unat x0..<unat x1] = []" by simp
    with False show ?thesis
      by (subst line_loop_plots_unfold) (simp only: if_False list.map)
  next
    case True
    then have lt: "unat x0 < unat x1" unfolding word_less_nat_alt .
    have s: "unat (x0 + 1) = Suc (unat x0)" using u8_unat_succ [OF True] by simp
    have h: "[unat x0..<unat x1] = unat x0 # [unat (x0 + 1)..<unat x1]"
      unfolding s by (rule upt_conv_Cons [OF lt])
    show ?thesis
    proof (cases "sint (err - dy) < 0")
      case neg: True
      show ?thesis
        using "1.IH"(1) [OF True refl refl neg]
        by (subst line_loop_plots_unfold) (simp add: True neg h)
    next
      case pos: False
      show ?thesis
        using "1.IH"(2) [OF True refl refl pos]
        by (subst line_loop_plots_unfold) (simp add: True pos h)
    qed
  qed
qed

lemma plot_all_white_on_screen_bits:
  assumes "length fb = LCDWIDTH * LCDHEIGHT div 8"
    and "\<forall>p \<in> set ps. fst (snd (snd p)) = WHITE \<and> snd (snd (snd p)) = NORM"
    and "x' < LCDWIDTH" and "y' < LCDHEIGHT"
  shows "pixel_bit (plot_all fb ps) x' y' \<longleftrightarrow>
         (x', y') \<in> (\<lambda>p. (unat (fst p), unat (fst (snd p)))) ` set (filter on_screen ps)
         \<or> pixel_bit fb x' y'"
proof -
  have "\<forall>p \<in> set (filter on_screen ps).
          on_screen p \<and> fst (snd (snd p)) = WHITE \<and> snd (snd (snd p)) = NORM"
    using assms(2) by simp
  from pixel_bit_plot_all_white [OF assms(1) this assms(3,4)] show ?thesis
    by (simp only: plot_all_on_screen)
qed

text \<open>
  C4. The line from \<open>(0, 0)\<close> to \<open>(200, 10)\<close>: the accumulator starts at 100 and reaches
  \<open>-10\<close> after the plot at \<open>x = 10\<close>; \<^verbatim>\<open>err += dx\<close> then gives 190, which the
  \<^verbatim>\<open>int8_t\<close> holds as \<open>-66\<close>, so the loop steps \<open>y\<close> again after the plot at \<open>x = 11\<close> and
  plots \<open>(12, 2)\<close>, where integer Bresenham stepping plots \<open>(12, 1)\<close>. On a cleared page
  buffer the pixel \<open>(12, 2)\<close> ends set and \<open>(12, 1)\<close> clear.
\<close>

theorem line_long_departs_from_bresenham:
  "line_plots 0 0 200 10 WHITE NORM ! 12 = (12, 2, WHITE, NORM)
   \<and> map (to_u8 WHITE NORM) (bresenham_line 0 0 200 10) ! 12 = (12, 1, WHITE, NORM)
   \<and> pixel_bit (line (replicate 384 0) 0 0 200 10 WHITE NORM) 12 2
   \<and> \<not> pixel_bit (line (replicate 384 0) 0 0 200 10 WHITE NORM) 12 1"
proof -
  have len: "length (replicate 384 (0 :: u8)) = LCDWIDTH * LCDHEIGHT div 8"
    by (simp add: LCDWIDTH_def LCDHEIGHT_def)
  have w: "(12 :: nat) < LCDWIDTH" by (simp add: LCDWIDTH_def)
  have h: "(2 :: nat) < LCDHEIGHT" "(1 :: nat) < LCDHEIGHT" by (simp_all add: LCDHEIGHT_def)
  have z: "\<not> pixel_bit (replicate 384 0) 12 2" "\<not> pixel_bit (replicate 384 0) 12 1"
    by (simp_all add: pixel_bit_def LCDWIDTH_def)
  have ps: "filter on_screen (line_plots 0 0 200 10 WHITE NORM) =
     map (\<lambda>(x, y). (x, y, WHITE, NORM))
       [(0, 0), (1, 0), (2, 0), (3, 0), (4, 0), (5, 0), (6, 0), (7, 0), (8, 0), (9, 0), (10, 0),
        (11, 1), (12, 2), (13, 2), (14, 2), (15, 2), (16, 2), (17, 2), (18, 2), (19, 2), (20, 2),
        (21, 2), (22, 2), (23, 2), (24, 2), (25, 3), (26, 4), (27, 4), (28, 4), (29, 4), (30, 4),
        (31, 4), (32, 4), (33, 4), (34, 4), (35, 4), (36, 4), (37, 4), (38, 4), (39, 5), (40, 6),
        (41, 6), (42, 6), (43, 6), (44, 6), (45, 6), (46, 6), (47, 6), (48, 6), (49, 6), (50, 6),
        (51, 6), (52, 6), (53, 6), (54, 7), (55, 8), (56, 8), (57, 8), (58, 8), (59, 8), (60, 8),
        (61, 8), (62, 8), (63, 8)]"
    by (simp add: line_plots_def on_screen_def LCDWIDTH_def LCDHEIGHT_def)
  have c: "\<forall>p \<in> set (line_plots 0 0 200 10 WHITE NORM).
             fst (snd (snd p)) = WHITE \<and> snd (snd (snd p)) = NORM"
    by (simp add: line_plots_def)
  have a: "line_plots 0 0 200 10 WHITE NORM ! 12 = (12, 2, WHITE, NORM)"
    by (simp add: line_plots_def)
  have b: "map (to_u8 WHITE NORM) (bresenham_line 0 0 200 10) ! 12 = (12, 1, WHITE, NORM)"
    by (simp add: bresenham_line_def to_u8_def eval_nat_numeral)
  have d: "pixel_bit (line (replicate 384 0) 0 0 200 10 WHITE NORM) 12 2"
    unfolding line_plots_eq plot_all_white_on_screen_bits [OF len c w h(1)] ps
    by (simp add: image_iff)
  have e: "\<not> pixel_bit (line (replicate 384 0) 0 0 200 10 WHITE NORM) 12 1"
    unfolding line_plots_eq plot_all_white_on_screen_bits [OF len c w h(2)] ps
    using z(2) by (simp add: image_iff)
  from a b d e show ?thesis by (intro conjI)
qed

subsection \<open>Rectangle outlines\<close>

lemma u8_less_one: "(h :: u8) - 2 < 1 \<longleftrightarrow> h = 2"
proof -
  have "(h - 2 < 1) = (h - 2 = 0)" by (simp add: word_less_1)
  also have "\<dots> = (h = 2)" by simp
  finally show ?thesis .
qed

lemma rect_edges:
  "rect fb x y width height color mode =
     (if height = 2
      then lineH (lineH fb x y width color mode) x (y + height - 1) width color mode
      else lineV (lineV (lineH (lineH fb x y width color mode) x (y + height - 1) width color mode)
                   x (y + 1) (height - 2) color mode)
             (x + width - 1) (y + 1) (height - 2) color mode)"
  unfolding rect_def Let_def u8_less_one ..

text \<open>
  C5. \<open>rect\<close> always draws the two horizontal edges and skips the two vertical edges
  exactly when \<open>height = 2\<close>: \<^verbatim>\<open>tempHeight\<close> is a \<^verbatim>\<open>uint8_t\<close>, so for a height of 0 or 1
  \<^verbatim>\<open>height-2\<close> is 254 or 255 and \<^verbatim>\<open>tempHeight<1\<close> is false. With height 1 in XOR mode on
  a cleared page buffer the two horizontal edges fall on the same row and cancel, and
  the two vertical edges are then plotted at \<open>(10, 10)\<close> and \<open>(14, 10)\<close>, which end set;
  drawing the two horizontal edges only leaves them clear.
\<close>

theorem rect_height_below_2_draws_vertical_edges:
  "rect fb x y width height color mode =
     (if height = 2
      then lineH (lineH fb x y width color mode) x (y + height - 1) width color mode
      else lineV (lineV (lineH (lineH fb x y width color mode) x (y + height - 1) width color mode)
                   x (y + 1) (height - 2) color mode)
             (x + width - 1) (y + 1) (height - 2) color mode)
   \<and> rect_plots 10 10 5 1 WHITE XOR_mode =
       lineH_plots 10 10 5 WHITE XOR_mode @ lineH_plots 10 10 5 WHITE XOR_mode
       @ [(10, 10, WHITE, XOR_mode), (14, 10, WHITE, XOR_mode)]
   \<and> pixel_bit (rect (replicate 384 0) 10 10 5 1 WHITE XOR_mode) 10 10
   \<and> pixel_bit (rect (replicate 384 0) 10 10 5 1 WHITE XOR_mode) 14 10
   \<and> \<not> pixel_bit (lineH (lineH (replicate 384 0) 10 10 5 WHITE XOR_mode) 10 10 5 WHITE XOR_mode) 10 10
   \<and> \<not> pixel_bit (lineH (lineH (replicate 384 0) 10 10 5 WHITE XOR_mode) 10 10 5 WHITE XOR_mode) 14 10"
proof -
  have len: "length (replicate 384 (0 :: u8)) = LCDWIDTH * LCDHEIGHT div 8"
    by (simp add: LCDWIDTH_def LCDHEIGHT_def)
  have h: "lineH_plots 10 10 5 WHITE XOR_mode =
      [(10, 10, WHITE, XOR_mode), (11, 10, WHITE, XOR_mode), (12, 10, WHITE, XOR_mode),
       (13, 10, WHITE, XOR_mode), (14, 10, WHITE, XOR_mode)]"
    by (simp add: lineH_plots_def line_plots_def)
  have v: "lineV_plots 10 11 (- 1) WHITE XOR_mode = [(10, 10, WHITE, XOR_mode)]"
    "lineV_plots 14 11 (- 1) WHITE XOR_mode = [(14, 10, WHITE, XOR_mode)]"
    by (simp_all add: lineV_plots_def line_plots_def)
  have p: "rect_plots 10 10 5 1 WHITE XOR_mode =
       lineH_plots 10 10 5 WHITE XOR_mode @ lineH_plots 10 10 5 WHITE XOR_mode
       @ [(10, 10, WHITE, XOR_mode), (14, 10, WHITE, XOR_mode)]"
    by (simp add: rect_plots_def v)
  have b: "pixel_bit (pixel fb x y WHITE XOR_mode) x' y' =
      (if x' = unat x \<and> y' = unat y then \<not> pixel_bit fb x' y' else pixel_bit fb x' y')"
    if "length fb = 384" "unat x < 64" "unat y < 48" "x' < 64" "y' < 48" for fb x y x' y'
    using pixel_bit_pixel [of fb x y x' y' WHITE XOR_mode] that
    by (simp add: LCDWIDTH_def LCDHEIGHT_def)
  have z: "\<not> pixel_bit (replicate 384 0) 10 10" "\<not> pixel_bit (replicate 384 0) 14 10"
    by (simp_all add: pixel_bit_def LCDWIDTH_def)
  have 1: "pixel_bit (rect (replicate 384 0) 10 10 5 1 WHITE XOR_mode) 10 10"
    unfolding rect_plots_eq p h using z by (simp add: b)
  have 2: "pixel_bit (rect (replicate 384 0) 10 10 5 1 WHITE XOR_mode) 14 10"
    unfolding rect_plots_eq p h using z by (simp add: b)
  have 3: "\<not> pixel_bit (lineH (lineH (replicate 384 0) 10 10 5 WHITE XOR_mode) 10 10 5 WHITE XOR_mode) 10 10"
    unfolding lineH_plots_eq h using z by (simp add: b)
  have 4: "\<not> pixel_bit (lineH (lineH (replicate 384 0) 10 10 5 WHITE XOR_mode) 10 10 5 WHITE XOR_mode) 14 10"
    unfolding lineH_plots_eq h using z by (simp add: b)
  from rect_edges [of fb x y width height color mode] p 1 2 3 4 show ?thesis by (intro conjI)
qed

end
